theory Spec2Isabelle
  imports Main
begin

section \<open>The job monitor of qiskit/tools/monitor/job\_monitor.py\<close>

text \<open>
  The module polls a job handle, sleeps between the queries and prints one evolving
  status line. The job handle, the output file and the clock are collaborators of the
  module: each call to one of them is an effect. The model threads a world through the
  code (the state of the job, the state of the output file, and the list of the calls
  made so far, each with what it returned) and gives every call three ways to end:
  it returns, it raises, or the fuel of the polling loop is used up.
\<close>

subsection \<open>Data\<close>

text \<open>A Python exception. The collaborators may raise any of them.\<close>

datatype pyexn = TypeError | ValueError | Exn string

text \<open>A job status: the enumeration member's \<open>name\<close> and its \<open>value\<close>, the display string.\<close>

datatype status = Status (name: string) (val: string)

text \<open>
  The calls the module makes, in the order it makes them. \<open>Print t r\<close> is one call of
  \<open>print\<close> on the output file: \<open>t\<close> is the whole text handed to the file (the
  formatted string followed by \<open>end\<close>) and \<open>r\<close> the exception the file raised, if any.
\<close>

datatype event =
    Status_call "pyexn + status"
  | Queue_position_call "pyexn + int option"
  | Sleep int
  | Print string "pyexn option"

text \<open>
  The behaviour of the collaborators: \<open>job.status()\<close>, \<open>job.queue_position()\<close>
  (absent when the job has no such attribute) and the output file's write. Each takes
  the collaborator's state and gives the result of the call with the state after it.
\<close>

record ('j, 'o) collab =
  job_status :: "'j \<Rightarrow> (pyexn + status) \<times> 'j"
  queue_position :: "('j \<Rightarrow> (pyexn + int option) \<times> 'j) option"
  output_write :: "string \<Rightarrow> 'o \<Rightarrow> pyexn option \<times> 'o"

record ('j, 'o) world =
  job :: 'j
  outfile :: 'o
  events :: "event list"

datatype 'a result = Return 'a | Raise pyexn | Timeout

type_synonym ('a, 'j, 'o) act = "('j, 'o) world \<Rightarrow> 'a result \<times> ('j, 'o) world"

definition ret :: "'a \<Rightarrow> ('a, 'j, 'o) act" where
  "ret a w = (Return a, w)"

definition raise :: "pyexn \<Rightarrow> ('a, 'j, 'o) act" where
  "raise e w = (Raise e, w)"

definition out_of_fuel :: "('a, 'j, 'o) act" where
  "out_of_fuel w = (Timeout, w)"

text \<open>Sequencing: an exception (or the end of the fuel) skips the rest.\<close>

definition seq :: "('a, 'j, 'o) act \<Rightarrow> ('a \<Rightarrow> ('b, 'j, 'o) act) \<Rightarrow> ('b, 'j, 'o) act" where
  "seq m f w =
     (case m w of
        (Return a, w') \<Rightarrow> f a w'
      | (Raise e, w') \<Rightarrow> (Raise e, w')
      | (Timeout, w') \<Rightarrow> (Timeout, w'))"

subsection \<open>The calls to the collaborators\<close>

definition of_sum :: "pyexn + 'a \<Rightarrow> 'a result" where
  "of_sum r = (case r of Inl e \<Rightarrow> Raise e | Inr a \<Rightarrow> Return a)"

definition call_status :: "('j, 'o) collab \<Rightarrow> (status, 'j, 'o) act" where
  "call_status c w =
     (case job_status c (job w) of
        (r, j') \<Rightarrow> (of_sum r, w\<lparr>job := j', events := events w @ [Status_call r]\<rparr>))"

definition call_queue_position ::
  "('j \<Rightarrow> (pyexn + int option) \<times> 'j) \<Rightarrow> (int option, 'j, 'o) act" where
  "call_queue_position qp w =
     (case qp (job w) of
        (r, j') \<Rightarrow> (of_sum r, w\<lparr>job := j', events := events w @ [Queue_position_call r]\<rparr>))"

text \<open>\<open>time.sleep\<close> raises ValueError on a negative length.\<close>

definition time_sleep :: "int \<Rightarrow> (unit, 'j, 'o) act" where
  "time_sleep secs w =
     ((if secs < 0 then Raise ValueError else Return ()),
      w\<lparr>events := events w @ [Sleep secs]\<rparr>)"

definition print_to :: "('j, 'o) collab \<Rightarrow> string \<Rightarrow> (unit, 'j, 'o) act" where
  "print_to c text w =
     (case output_write c text (outfile w) of
        (r, o') \<Rightarrow>
          ((case r of None \<Rightarrow> Return () | Some e \<Rightarrow> Raise e),
           w\<lparr>outfile := o',events := events w @ [Print text r]\<rparr>))"

subsection \<open>String formatting\<close>

text \<open>\<open>str\<close> of a Python int, and \<open>"%s" % x\<close> for an int or None.\<close>

fun str_nat :: "nat \<Rightarrow> string" where
  "str_nat n =
     (if n < 10 then [''0123456789'' ! n]
      else str_nat (n div 10) @ [''0123456789'' ! (n mod 10)])"

declare str_nat.simps [simp del]

definition str_int :: "int \<Rightarrow> string" where
  "str_int i = (if i < 0 then ''-'' @ str_nat (nat (- i)) else str_nat (nat i))"

definition percent_s :: "int option \<Rightarrow> string" where
  "percent_s p = (case p of None \<Rightarrow> ''None'' | Some i \<Rightarrow> str_int i)"

text \<open>\<open>"{}{}: {}".format(line_discipline, "Job Status", msg)\<close>\<close>

definition status_line :: "string \<Rightarrow> string \<Rightarrow> string" where
  "status_line line_discipline msg = line_discipline @ ''Job Status'' @ '': '' @ msg"

definition newline :: string where
  "newline = [CHR 0x0A]"

subsection \<open>The polling loop of \_text\_checker\<close>

text \<open>The local variables that live across the iterations of the loop.\<close>

record vars =
  status :: status
  interval :: int
  msg_len :: nat
  prev_msg :: string

definition terminal :: "status \<Rightarrow> bool" where
  "terminal st = (name st \<in> set [''DONE'', ''CANCELLED'', ''ERROR''])"

definition hasattr_queue_position :: "('j, 'o) collab \<Rightarrow> bool" where
  "hasattr_queue_position c = (queue_position c \<noteq> None)"

text \<open>
  Lines 48 to 56: the queue position is appended to the message and the interval is
  adjusted. \<open>max(job.queue_position(), 2)\<close> raises TypeError when the call gives None.
  The result is the message and the interval.
\<close>

definition adjust ::
  "('j, 'o) collab \<Rightarrow> bool \<Rightarrow> status \<Rightarrow> string \<Rightarrow> int \<Rightarrow> (string \<times> int, 'j, 'o) act" where
  "adjust c interval_set st msg ival =
     (if name st = ''QUEUED'' \<and> hasattr_queue_position c then
        seq (call_queue_position (the (queue_position c))) (\<lambda>p1.
        seq (call_queue_position (the (queue_position c))) (\<lambda>p2.
          if p2 = None then ret (msg @ '' ('' @ percent_s p1 @ '')'', 2)
          else if \<not> interval_set then
            seq (call_queue_position (the (queue_position c))) (\<lambda>p3.
              case p3 of
                None \<Rightarrow> raise TypeError
              | Some n \<Rightarrow> ret (msg @ '' ('' @ percent_s p1 @ '')'', max n 2))
          else ret (msg @ '' ('' @ percent_s p1 @ '')'', ival)))
      else if \<not> interval_set then ret (msg, 2)
      else ret (msg, ival))"

text \<open>Lines 59 to 62: the message and the length to keep.\<close>

definition pad :: "string \<Rightarrow> nat \<Rightarrow> string \<times> nat" where
  "pad msg len =
     (if length msg < len then (msg @ replicate (len - length msg) CHR '' '', len)
      else if length msg > len then (msg, length msg)
      else (msg, len))"

text \<open>One iteration of the while loop, lines 44 to 66.\<close>

definition iteration ::
  "('j, 'o) collab \<Rightarrow> bool \<Rightarrow> bool \<Rightarrow> string \<Rightarrow> vars \<Rightarrow> (vars, 'j, 'o) act" where
  "iteration c interval_set quiet line_discipline v =
     seq (time_sleep (interval v)) (\<lambda>_.
     seq (call_status c) (\<lambda>st.
     seq (adjust c interval_set st (val st) (interval v)) (\<lambda>(msg, ival).
       case pad msg (msg_len v) of
         (msg', len') \<Rightarrow>
           if msg' \<noteq> prev_msg v \<and> \<not> quiet then
             seq (print_to c (status_line line_discipline msg')) (\<lambda>_.
               ret \<lparr>status = st, interval = ival, msg_len = len', prev_msg = msg'\<rparr>)
           else
             ret \<lparr>status = st, interval = ival, msg_len = len', prev_msg = prev_msg v\<rparr>)))"

text \<open>
  The while loop. The fuel bounds the number of iterations: a job that never reaches a
  terminal status keeps the loop running, and the model then stops with \<open>Timeout\<close>.
\<close>

fun poll ::
  "('j, 'o) collab \<Rightarrow> bool \<Rightarrow> bool \<Rightarrow> string \<Rightarrow> nat \<Rightarrow> vars \<Rightarrow> (unit, 'j, 'o) act" where
  "poll c interval_set quiet line_discipline 0 v =
     (if terminal (status v) then ret () else out_of_fuel)"
| "poll c interval_set quiet line_discipline (Suc fuel) v =
     (if terminal (status v) then ret ()
      else seq (iteration c interval_set quiet line_discipline v)
             (poll c interval_set quiet line_discipline fuel))"

text \<open>\_text\_checker, lines 36 to 68, from the world it is called in.\<close>

definition text_checker ::
  "('j, 'o) collab \<Rightarrow> nat \<Rightarrow> int \<Rightarrow> bool \<Rightarrow> bool \<Rightarrow> string \<Rightarrow> (unit, 'j, 'o) act" where
  "text_checker c fuel ival interval_set quiet line_discipline =
     seq (call_status c) (\<lambda>st.
     seq (if \<not> quiet then print_to c (status_line line_discipline (val st)) else ret ()) (\<lambda>_.
     seq (poll c interval_set quiet line_discipline fuel
            \<lparr>status = st, interval = ival, msg_len = length (val st), prev_msg = val st\<rparr>) (\<lambda>_.
       if \<not> quiet then print_to c newline else ret ())))"

text \<open>job\_monitor, lines 99 to 107; \<open>None\<close> is the interval left out.\<close>

definition job_monitor ::
  "('j, 'o) collab \<Rightarrow> nat \<Rightarrow> int option \<Rightarrow> bool \<Rightarrow> string \<Rightarrow> (unit, 'j, 'o) act" where
  "job_monitor c fuel ival quiet line_discipline =
     (case ival of
        None \<Rightarrow> text_checker c fuel 5 False quiet line_discipline
      | Some i \<Rightarrow> text_checker c fuel i True quiet line_discipline)"

text \<open>The world a session starts in: no call made yet.\<close>

definition start :: "'j \<Rightarrow> 'o \<Rightarrow> ('j, 'o) world" where
  "start j out = \<lparr>job = j, outfile = out, events = []\<rparr>"

subsection \<open>Reading the list of calls\<close>

fun sleeps_of :: "event list \<Rightarrow> int list" where
  "sleeps_of [] = []"
| "sleeps_of (Sleep s # es) = s # sleeps_of es"
| "sleeps_of (_ # es) = sleeps_of es"

fun prints_of :: "event list \<Rightarrow> string list" where
  "prints_of [] = []"
| "prints_of (Print t r # es) = t # prints_of es"
| "prints_of (_ # es) = prints_of es"

text \<open>The queries and the sleeps: every call but the prints.\<close>

fun polls_of :: "event list \<Rightarrow> event list" where
  "polls_of [] = []"
| "polls_of (Print t r # es) = polls_of es"
| "polls_of (e # es) = e # polls_of es"


text \<open>The exception a call ended with, if it raised.\<close>

fun failure :: "event \<Rightarrow> pyexn option" where
  "failure (Status_call (Inl e)) = Some e"
| "failure (Status_call (Inr st)) = None"
| "failure (Queue_position_call (Inl e)) = Some e"
| "failure (Queue_position_call (Inr p)) = None"
| "failure (Sleep s) = (if s < 0 then Some ValueError else None)"
| "failure (Print t r) = r"

subsection \<open>Concrete collaborators\<close>

text \<open>
  A job that plays a script: each \<open>status()\<close> gives the next status of the list and
  makes the position written beside it the current one, which \<open>queue_position()\<close>
  reports. Past the end of the script \<open>status()\<close> raises.
\<close>

type_synonym script = "(status \<times> int option) list \<times> int option"

definition script_status :: "script \<Rightarrow> (pyexn + status) \<times> script" where
  "script_status j =
     (case fst j of
        [] \<Rightarrow> (Inl (Exn ''StopIteration''), j)
      | (st, p) # rest \<Rightarrow> (Inr st, (rest, p)))"

definition script_queue_position :: "script \<Rightarrow> (pyexn + int option) \<times> script" where
  "script_queue_position j = (Inr (snd j), j)"


text \<open>An output file that keeps what is written, and one that is closed.\<close>

definition buffer_write :: "string \<Rightarrow> string \<Rightarrow> pyexn option \<times> string" where
  "buffer_write t buf = (None, buf @ t)"

definition closed_write :: "string \<Rightarrow> string \<Rightarrow> pyexn option \<times> string" where
  "closed_write t buf = (Some ValueError, buf)"

definition scripted :: "(script, string) collab" where
  "scripted =
     \<lparr>job_status = script_status, queue_position = Some script_queue_position,
      output_write = buffer_write\<rparr>"


definition scripted_closed :: "(script, string) collab" where
  "scripted_closed =
     \<lparr>job_status = script_status, queue_position = Some script_queue_position,
      output_write = closed_write\<rparr>"

text \<open>Members of Qiskit's JobStatus enumeration.\<close>

definition QUEUED :: status where
  "QUEUED = Status ''QUEUED'' ''job is queued''"

definition RUNNING :: status where
  "RUNNING = Status ''RUNNING'' ''job is actively running''"

definition DONE :: status where
  "DONE = Status ''DONE'' ''job has successfully run''"

text \<open>The carriage return, the default line discipline.\<close>

definition cr :: string where
  "cr = [CHR 0x0D]"

text \<open>
  The job of the scenario: queued at position 3, queued at position 1, running, done.
\<close>

definition scenario :: script where
  "scenario = ([(QUEUED, Some 3), (QUEUED, Some 1), (RUNNING, None), (DONE, None)], None)"

text \<open>A job that is queued and does not know its position.\<close>

definition null_position :: script where
  "null_position = ([(QUEUED, None), (QUEUED, None), (RUNNING, None), (DONE, None)], None)"

text \<open>A job whose \<open>status()\<close> raises at the second call.\<close>

definition short_script :: script where
  "short_script = ([(QUEUED, None)], None)"

text \<open>
  The job of the scenario when it is still at position 3 at the query made before the
  loop: the four statuses of the scenario are then the ones the loop fetches.
\<close>

definition scenario_polled_before :: script where
  "scenario_polled_before = ((QUEUED, Some 3) # fst scenario, None)"



text \<open>
  A job queued at \<open>p\<close> and then done, and the variables of the loop after a first
  status QUEUED when no interval was given.
\<close>

definition queued_at :: "int option \<Rightarrow> script" where
  "queued_at p = ([(QUEUED, p), (DONE, None)], None)"

definition first_queued :: vars where
  "first_queued =
     \<lparr>status = QUEUED, interval = 5, msg_len = length (val QUEUED), prev_msg = val QUEUED\<rparr>"

subsection \<open>Vocabulary of the proofs\<close>

text \<open>An action keeps a property of the world, however it ends.\<close>

definition keeps :: "(('j, 'o) world \<Rightarrow> bool) \<Rightarrow> ('a, 'j, 'o) act \<Rightarrow> bool" where
  "keeps I m = (\<forall>w. I w \<longrightarrow> I (snd (m w)))"

text \<open>Nothing printed beyond \<open>ps\<close>, and the output file still in the state \<open>out\<close>.\<close>

definition silent :: "string list \<Rightarrow> 'o \<Rightarrow> ('j, 'o) world \<Rightarrow> bool" where
  "silent ps out w = (prints_of (events w) = ps \<and> outfile w = out)"

text \<open>No call in the list raised.\<close>

definition clean :: "event list \<Rightarrow> bool" where
  "clean es = list_all (\<lambda>ev. failure ev = None) es"

text \<open>
  What the list of calls and the result of a session have to do with each other: a call
  that raised is the last call made, and its exception is the result.
\<close>

fun propagated :: "'a result \<Rightarrow> event list \<Rightarrow> bool" where
  "propagated (Raise e) es =
     (clean es \<or> (es \<noteq> [] \<and> clean (butlast es) \<and> failure (last es) = Some e))"
| "propagated (Return a) es = clean es"
| "propagated Timeout es = clean es"

text \<open>An action that starts with no call having raised ends that way.\<close>

definition honest :: "('a, 'j, 'o) act \<Rightarrow> bool" where
  "honest m = (\<forall>w. clean (events w) \<longrightarrow> propagated (fst (m w)) (events (snd (m w))))"

text \<open>
  Two worlds with the job in the same state and the same queries and sleeps made; two
  actions that take such worlds to such worlds, with results related by \<open>Q\<close>.
\<close>

definition same_polls :: "('j, 'o) world \<Rightarrow> ('j, 'o) world \<Rightarrow> bool" where
  "same_polls w1 w2 = (job w1 = job w2 \<and> polls_of (events w1) = polls_of (events w2))"

definition same_vars :: "vars \<Rightarrow> vars \<Rightarrow> bool" where
  "same_vars v1 v2 =
     (status v1 = status v2 \<and> interval v1 = interval v2 \<and> msg_len v1 = msg_len v2)"

definition alike ::
  "('a \<Rightarrow> 'b \<Rightarrow> bool) \<Rightarrow> ('a, 'j, 'o) act \<Rightarrow> ('b, 'j, 'o) act \<Rightarrow> bool" where
  "alike Q m1 m2 =
     (\<forall>w1 w2. same_polls w1 w2 \<longrightarrow>
        rel_result Q (fst (m1 w1)) (fst (m2 w2)) \<and> same_polls (snd (m1 w1)) (snd (m2 w2)))"

text \<open>
  The status lines a session printed: every text printed but the newline that ends the
  session (a status line holds the label and is never the newline alone).
\<close>

definition messages :: "event list \<Rightarrow> string list" where
  "messages es = filter (\<lambda>t. t \<noteq> newline) (prints_of es)"



text \<open>From a world where \<open>P\<close> holds the action ends with \<open>Q\<close> of its result.\<close>

definition triple ::
  "(('j, 'o) world \<Rightarrow> bool) \<Rightarrow> ('a, 'j, 'o) act \<Rightarrow>
   ('a result \<Rightarrow> ('j, 'o) world \<Rightarrow> bool) \<Rightarrow> bool" where
  "triple P m Q = (\<forall>w. P w \<longrightarrow> Q (fst (m w)) (snd (m w)))"


text \<open>The newline that ends a session has not been printed.\<close>

definition unended :: "('j, 'o) world \<Rightarrow> bool" where
  "unended w = (prints_of (events w) = messages (events w))"

text \<open>An action only adds calls to the list.\<close>

definition grows :: "('a, 'j, 'o) act \<Rightarrow> bool" where
  "grows m = (\<forall>w. \<exists>es. events (snd (m w)) = events w @ es)"

text \<open>
  Lines 50 to 53 as a function of the second and the third answer of
  \<open>queue_position()\<close>: the interval left for the next sleep, or None when \<open>max\<close>
  raises.
\<close>

definition next_interval :: "bool \<Rightarrow> int \<Rightarrow> int option \<Rightarrow> int option \<Rightarrow> int option" where
  "next_interval interval_set ival p2 p3 =
     (if p2 = None then Some 2
      else if interval_set then Some ival
      else map_option (\<lambda>n. max n 2) p3)"

section \<open>Properties\<close>

subsection \<open>Basic facts\<close>

lemmas adjust_unfold =
  adjust_def seq_def call_queue_position_def ret_def raise_def of_sum_def
  hasattr_queue_position_def

lemma poll_terminal: "terminal (status v) \<Longrightarrow> poll c interval_set quiet ld fuel v = ret ()"
  by (cases fuel) simp_all

lemma prints_of_append: "prints_of (xs @ ys) = prints_of xs @ prints_of ys"
  by (induction xs rule: prints_of.induct) simp_all

lemma keeps_ret: "keeps I (ret a)"
  by (simp add: keeps_def ret_def)

lemma keeps_raise: "keeps I (raise e)"
  by (simp add: keeps_def raise_def)

lemma keeps_out_of_fuel: "keeps I out_of_fuel"
  by (simp add: keeps_def out_of_fuel_def)

lemma keeps_seq: "keeps I m \<Longrightarrow> (\<And>a. keeps I (f a)) \<Longrightarrow> keeps I (seq m f)"
  by (auto simp: keeps_def seq_def split: prod.splits result.splits)

subsection \<open>A user's interval and a null queue position\<close>

text \<open>
  C1. The claim: an interval given by the caller is the length of every sleep of the
  session, also when the job reports a null queue position. The code at line 50 sets
  the interval to 2 on a null position without looking at \<open>_interval_set\<close>, which the
  two other assignments (lines 52 and 55) do look at. Here the caller asks for 10
  seconds and the job is queued with no known position: the session sleeps 10, then 2,
  then 2.
\<close>

theorem user_interval_overridden:
  "fst (job_monitor scripted 3 (Some 10) False cr (start null_position [])) = Return ()
   \<and> sleeps_of (events (snd (job_monitor scripted 3 (Some 10) False cr
                                (start null_position []))))
       = [10, 2, 2]"
  by code_simp

text \<open>
  The null position is the only way: with an interval given, lines 48 to 56 return
  either that interval, or 2 on a queued status of a job that has \<open>queue_position\<close>.
\<close>

lemma adjust_user_interval:
  assumes "adjust c True st msg ival w = (Return (msg', ival'), w')"
  shows "ival' = ival \<or> (ival' = 2 \<and> name st = ''QUEUED'' \<and> hasattr_queue_position c)"
  using assms
  by (auto simp: adjust_unfold split: prod.splits sum.splits if_splits option.splits)

subsection \<open>The scenario\<close>

text \<open>
  C2, as the code runs it. The first status is fetched before the loop, where no queue
  position is asked for, so position 3 is never read: the session sleeps 5, 2 and 2
  (three sleeps for four status queries), whatever fuel beyond three iterations it is
  given. It prints four distinct status lines and then one newline.
\<close>

theorem scenario_run:
  "fst (job_monitor scripted (3 + n) None False cr (start scenario [])) = Return ()
   \<and> sleeps_of (events (snd (job_monitor scripted (3 + n) None False cr (start scenario []))))
       = [5, 2, 2]
   \<and> prints_of (events (snd (job_monitor scripted (3 + n) None False cr (start scenario []))))
       = [cr @ ''Job Status: job is queued'',
          cr @ ''Job Status: job is queued (1)'',
          cr @ ''Job Status: job is actively running'',
          cr @ ''Job Status: job has successfully run'',
          newline]
   \<and> distinct (prints_of (events (snd (job_monitor scripted (3 + n) None False cr
                                         (start scenario [])))))"
  apply (simp add: numeral_3_eq_3)
  apply (simp add: job_monitor_def text_checker_def iteration_def adjust_unfold call_status_def
      print_to_def time_sleep_def scripted_def script_status_def script_queue_position_def
      buffer_write_def start_def scenario_def QUEUED_def RUNNING_def DONE_def terminal_def
      pad_def status_line_def percent_s_def str_int_def str_nat.simps poll_terminal cr_def
      newline_def)
  done

text \<open>C2 as stated fails: the sleeps are not 5, 3, 2, 2.\<close>

theorem scenario_sleeps_differ:
  "fst (job_monitor scripted 3 None False cr (start scenario [])) = Return ()
   \<and> sleeps_of (events (snd (job_monitor scripted 3 None False cr (start scenario []))))
       \<noteq> [5, 3, 2, 2]"
  by code_simp

text \<open>
  The sleeps 5, 3, 2, 2 belong to another session: one that has already fetched a status
  before the four of the scenario, so that the loop itself sees the job at position 3.
  That session prints five status lines, not four.
\<close>

lemma scenario_polled_before_run:
  "sleeps_of (events (snd (job_monitor scripted 4 None False cr
                            (start scenario_polled_before []))))
     = [5, 3, 2, 2]
   \<and> prints_of (events (snd (job_monitor scripted 4 None False cr
                                (start scenario_polled_before []))))
     = [cr @ ''Job Status: job is queued'',
        cr @ ''Job Status: job is queued (3)'',
        cr @ ''Job Status: job is queued (1)'',
        cr @ ''Job Status: job is actively running'',
        cr @ ''Job Status: job has successfully run'',
        newline]"
  by code_simp

subsection \<open>Lines 48 to 56: the queue position\<close>

text \<open>
  C3, as the code runs it. On a queued status of a job that has \<open>queue_position\<close>,
  when the first call of the iteration gives None, the suffix appended to the message
  is \<open>" (None)"\<close>: the position goes through \<open>%s\<close>.
\<close>

theorem adjust_null_position_suffix:
  assumes "name st = ''QUEUED''" and "queue_position c = Some qp"
    and "qp (job w) = (Inr None, j1)"
    and "adjust c interval_set st msg ival w = (Return (msg', ival'), w')"
  shows "msg' = msg @ '' (None)''"
  using assms
  by (auto simp: adjust_unfold percent_s_def
      split: prod.splits sum.splits if_splits option.splits)

theorem adjust_null_position_suffix_witness:
  "name QUEUED = ''QUEUED'' \<and> queue_position scripted = Some script_queue_position
   \<and> script_queue_position (job (start ([], None) [])) = (Inr None, ([], None))
   \<and> adjust scripted False QUEUED (val QUEUED) 5 (start ([], None) []) =
       (Return (''job is queued (None)'', 2),
        \<lparr>job = ([], None), outfile = [],
         events = [Queue_position_call (Inr None), Queue_position_call (Inr None)]\<rparr>)
   \<and> ''job is queued (None)'' = val QUEUED @ '' (None)''"
proof -
  have h1: "name QUEUED = ''QUEUED''" by (simp add: QUEUED_def)
  have h2: "queue_position scripted = Some script_queue_position" by (simp add: scripted_def)
  have h3: "script_queue_position (job (start ([], None) [])) = (Inr None, ([], None))"
    by (simp add: script_queue_position_def start_def)
  have h4: "adjust scripted False QUEUED (val QUEUED) 5 (start ([], None) []) =
       (Return (''job is queued (None)'', 2),
        \<lparr>job = ([], None), outfile = [],
         events = [Queue_position_call (Inr None), Queue_position_call (Inr None)]\<rparr>)"
    by (simp add: adjust_unfold scripted_def script_queue_position_def start_def QUEUED_def
        percent_s_def)
  from adjust_null_position_suffix [OF h1 h2 h3 h4] h1 h2 h3 h4 show ?thesis by blast
qed

text \<open>
  C3 as stated fails: for the job with no known position the second line printed ends
  in \<open>(None)\<close>, not in \<open>(unknown)\<close>.
\<close>

theorem null_position_not_unknown:
  "prints_of (events (snd (job_monitor scripted 3 None False cr (start null_position [])))) ! 1
     = cr @ ''Job Status: job is queued (None)''
   \<and> cr @ ''Job Status: job is queued (None)'' \<noteq> cr @ ''Job Status: job is queued (unknown)''"
  by code_simp

subsection \<open>A quiet session\<close>

lemma silent_call_status: "keeps (silent ps out) (call_status c)"
  by (simp add: keeps_def silent_def call_status_def prints_of_append split: prod.splits)

lemma silent_call_queue_position: "keeps (silent ps out) (call_queue_position qp)"
  by (simp add: keeps_def silent_def call_queue_position_def prints_of_append
      split: prod.splits)

lemma silent_time_sleep: "keeps (silent ps out) (time_sleep s)"
  by (simp add: keeps_def silent_def time_sleep_def prints_of_append)

lemma silent_adjust: "keeps (silent ps out) (adjust c interval_set st msg ival)"
  unfolding adjust_def
  by (intro keeps_seq keeps_ret keeps_raise silent_call_queue_position
        if_split [where P = "keeps (silent ps out)", THEN iffD2] conjI impI allI
        option.split [where P = "keeps (silent ps out)", THEN iffD2])

lemma silent_iteration: "keeps (silent ps out) (iteration c interval_set True ld v)"
  unfolding iteration_def
  by (auto intro!: keeps_seq keeps_ret silent_time_sleep silent_call_status silent_adjust
        split: prod.splits)

lemma silent_poll: "keeps (silent ps out) (poll c interval_set True ld fuel v)"
  by (induction fuel arbitrary: v)
    (auto intro!: keeps_seq keeps_ret keeps_out_of_fuel silent_iteration)

lemma silent_text_checker:
  "keeps (silent ps out) (text_checker c fuel ival interval_set True ld)"
  unfolding text_checker_def
  by (auto intro!: keeps_seq keeps_ret silent_call_status silent_poll)

text \<open>
  C7. With \<open>quiet=True\<close> a session makes no call of \<open>print\<close> and leaves the output
  file in the state it found it in: for every job, every interval, every line
  discipline, and every number of iterations, also when the session ends in an
  exception or goes on for ever.
\<close>

theorem quiet_writes_nothing:
  "prints_of (events (snd (job_monitor c fuel ival True ld w))) = prints_of (events w)
   \<and> outfile (snd (job_monitor c fuel ival True ld w)) = outfile w"
proof -
  have "silent (prints_of (events w)) (outfile w) w"
    by (simp add: silent_def)
  moreover
  have "keeps (silent (prints_of (events w)) (outfile w)) (job_monitor c fuel ival True ld)"
    by (simp add: job_monitor_def silent_text_checker split: option.splits)
  ultimately
  have "silent (prints_of (events w)) (outfile w) (snd (job_monitor c fuel ival True ld w))"
    by (simp add: keeps_def)
  then show ?thesis by (simp add: silent_def)
qed

subsection \<open>Exceptions of the collaborators\<close>

lemma honest_ret: "honest (ret a)"
  by (simp add: honest_def ret_def)

lemma honest_raise: "honest (raise e)"
  by (simp add: honest_def raise_def)

lemma honest_out_of_fuel: "honest out_of_fuel"
  by (simp add: honest_def out_of_fuel_def)

lemma honest_seq:
  fixes m :: "('a, 'j, 'o) act" and f :: "'a \<Rightarrow> ('b, 'j, 'o) act"
  assumes m: "honest m" and f: "\<And>a. honest (f a)"
  shows "honest (seq m f)"
  unfolding honest_def
proof (intro allI impI)
  fix w :: "('j, 'o) world"
  assume c: "clean (events w)"
  obtain x w' where mw: "m w = (x, w')" by (cases "m w")
  from m c mw have p: "propagated x (events w')" by (auto simp: honest_def)
  show "propagated (fst (seq m f w)) (events (snd (seq m f w)))"
  proof (cases x)
    case (Return a)
    with p have "clean (events w')" by simp
    with f [of a] have "propagated (fst (f a w')) (events (snd (f a w')))"
      by (simp add: honest_def)
    with Return mw show ?thesis by (simp add: seq_def)
  next
    case (Raise e)
    with p mw show ?thesis by (simp add: seq_def)
  next
    case Timeout
    with p mw show ?thesis by (simp add: seq_def)
  qed
qed

lemma honest_call_status: "honest (call_status c)"
  by (auto simp: honest_def call_status_def clean_def of_sum_def split: prod.splits sum.splits)

lemma honest_call_queue_position: "honest (call_queue_position qp)"
  by (auto simp: honest_def call_queue_position_def clean_def of_sum_def
      split: prod.splits sum.splits)

lemma honest_time_sleep: "honest (time_sleep s)"
  by (auto simp: honest_def time_sleep_def clean_def)

lemma honest_print_to: "honest (print_to c t)"
  by (auto simp: honest_def print_to_def clean_def split: prod.splits option.splits)

lemma honest_adjust: "honest (adjust c interval_set st msg ival)"
  unfolding adjust_def
  by (intro honest_seq honest_ret honest_raise honest_call_queue_position
        if_split [where P = honest, THEN iffD2] conjI impI allI
        option.split [where P = honest, THEN iffD2])

lemma honest_iteration: "honest (iteration c interval_set quiet ld v)"
  unfolding iteration_def
  by (auto intro!: honest_seq honest_ret honest_time_sleep honest_call_status honest_adjust
        honest_print_to split: prod.splits)

lemma honest_poll: "honest (poll c interval_set quiet ld fuel v)"
  by (induction fuel arbitrary: v)
    (auto intro!: honest_seq honest_ret honest_out_of_fuel honest_iteration)

lemma honest_text_checker: "honest (text_checker c fuel ival interval_set quiet ld)"
  unfolding text_checker_def
  by (auto intro!: honest_seq honest_ret honest_call_status honest_poll honest_print_to)

lemma honest_job_monitor: "honest (job_monitor c fuel ival quiet ld)"
  by (simp add: job_monitor_def honest_text_checker split: option.splits)

lemma propagated_last:
  assumes p: "propagated r es" and es: "es = pre @ ev # post" and ev: "failure ev = Some e"
  shows "post = [] \<and> r = Raise e"
proof -
  from es ev have nc: "\<not> clean es" by (auto simp: clean_def)
  with p obtain e' where r: "r = Raise e'" by (cases r) auto
  with p nc have b: "clean (butlast es)" and l: "failure (last es) = Some e'" by auto
  have post: "post = []"
  proof (rule ccontr)
    assume "post \<noteq> []"
    with es have "butlast es = pre @ ev # butlast post" by (simp add: butlast_append)
    with b ev show False by (auto simp: clean_def)
  qed
  with es l ev r show ?thesis by simp
qed

text \<open>
  C8. In a session of \<open>job_monitor\<close>, a call that raises (the job's \<open>status()\<close>,
  its \<open>queue_position()\<close>, the write of the output file, and \<open>time.sleep\<close> as
  well) is the last call the session makes, and the session ends in that very exception:
  nothing is caught, retried or replaced.
\<close>

theorem errors_propagate:
  assumes "events (snd (job_monitor c fuel ival quiet ld (start j out))) = pre @ ev # post"
    and "failure ev = Some e"
  shows "post = [] \<and> fst (job_monitor c fuel ival quiet ld (start j out)) = Raise e"
proof -
  have "clean (events (start j out))" by (simp add: start_def clean_def)
  with honest_job_monitor [of c fuel ival quiet ld]
  have "propagated (fst (job_monitor c fuel ival quiet ld (start j out)))
          (events (snd (job_monitor c fuel ival quiet ld (start j out))))"
    by (simp add: honest_def)
  from propagated_last [OF this assms] show ?thesis .
qed

theorem errors_propagate_witness:
  "events (snd (job_monitor scripted 3 None False cr (start short_script []))) =
     [Status_call (Inr QUEUED), Print (cr @ ''Job Status: job is queued'') None, Sleep 5]
       @ Status_call (Inl (Exn ''StopIteration'')) # []
   \<and> failure (Status_call (Inl (Exn ''StopIteration''))) = Some (Exn ''StopIteration'')
   \<and> fst (job_monitor scripted 3 None False cr (start short_script [])) =
       Raise (Exn ''StopIteration'')"
proof -
  have h1: "events (snd (job_monitor scripted 3 None False cr (start short_script []))) =
     [Status_call (Inr QUEUED), Print (cr @ ''Job Status: job is queued'') None, Sleep 5]
       @ Status_call (Inl (Exn ''StopIteration'')) # []"
    by code_simp
  have h2: "failure (Status_call (Inl (Exn ''StopIteration''))) = Some (Exn ''StopIteration'')"
    by simp
  from errors_propagate [OF h1 h2] h1 h2 show ?thesis by blast
qed

subsection \<open>The quiet flag and the polling\<close>

lemma polls_of_append: "polls_of (xs @ ys) = polls_of xs @ polls_of ys"
  by (induction xs rule: polls_of.induct) simp_all

lemma alike_ret: "Q a b \<Longrightarrow> alike Q (ret a) (ret b)"
  by (simp add: alike_def ret_def)

lemma alike_raise: "alike Q (raise e) (raise e)"
  by (simp add: alike_def raise_def)

lemma alike_out_of_fuel: "alike Q out_of_fuel out_of_fuel"
  by (simp add: alike_def out_of_fuel_def)

lemma alike_seq:
  fixes m1 :: "('a, 'j, 'o) act" and m2 :: "('b, 'j, 'o) act"
    and f :: "'a \<Rightarrow> ('c, 'j, 'o) act" and g :: "'b \<Rightarrow> ('d, 'j, 'o) act"
  assumes m: "alike Q m1 m2" and f: "\<And>a b. Q a b \<Longrightarrow> alike Q' (f a) (g b)"
  shows "alike Q' (seq m1 f) (seq m2 g)"
  unfolding alike_def
proof (intro allI impI)
  fix w1 w2 :: "('j, 'o) world"
  assume s: "same_polls w1 w2"
  obtain x1 u1 where m1: "m1 w1 = (x1, u1)" by (cases "m1 w1")
  obtain x2 u2 where m2: "m2 w2 = (x2, u2)" by (cases "m2 w2")
  from m [unfolded alike_def, rule_format, OF s] m1 m2
  have r: "rel_result Q x1 x2" and u: "same_polls u1 u2"
    by simp_all
  show "rel_result Q' (fst (seq m1 f w1)) (fst (seq m2 g w2)) \<and>
        same_polls (snd (seq m1 f w1)) (snd (seq m2 g w2))"
  proof (cases x1)
    case (Return a)
    with r obtain b where x2: "x2 = Return b" and q: "Q a b" by (cases x2) auto
    from f [OF q] u have "rel_result Q' (fst (f a u1)) (fst (g b u2)) \<and>
        same_polls (snd (f a u1)) (snd (g b u2))"
      by (simp add: alike_def)
    with Return x2 m1 m2 show ?thesis by (simp add: seq_def)
  next
    case (Raise e)
    with r have "x2 = Raise e" by (cases x2) auto
    with Raise u m1 m2 show ?thesis by (simp add: seq_def)
  next
    case Timeout
    with r have "x2 = Timeout" by (cases x2) auto
    with Timeout u m1 m2 show ?thesis by (simp add: seq_def)
  qed
qed

lemma rel_result_refl: "rel_result (=) x x"
  by (simp add: result.rel_eq)

lemma alike_call_status: "alike (=) (call_status c) (call_status c)"
  by (auto simp: alike_def same_polls_def call_status_def polls_of_append rel_result_refl
      split: prod.splits)

lemma alike_call_queue_position: "alike (=) (call_queue_position qp) (call_queue_position qp)"
  by (auto simp: alike_def same_polls_def call_queue_position_def polls_of_append
      rel_result_refl split: prod.splits)

lemma alike_time_sleep: "alike (=) (time_sleep s) (time_sleep s)"
  by (auto simp: alike_def same_polls_def time_sleep_def polls_of_append)

lemma alike_print_to:
  assumes "\<And>t out. fst (output_write c t out) = None"
  shows "alike (=) (ret ()) (print_to c t)"
  using assms [of t]
  apply (auto simp: alike_def same_polls_def ret_def print_to_def polls_of_append
      split: prod.splits option.splits)
   apply (metis fst_conv option.distinct(1))
  done

lemma alike_adjust:
  "alike (=) (adjust c interval_set st msg ival) (adjust c interval_set st msg ival)"
  unfolding adjust_def
  by (auto intro!: alike_seq [where Q = "(=)"] alike_ret alike_raise alike_call_queue_position
        split: option.splits)

lemma alike_skip_print:
  assumes "\<And>t out. fst (output_write c t out) = None" and "Q a b"
  shows "alike Q (ret a) (seq (print_to c t) (\<lambda>_. ret b))"
  using assms(1) [of t] assms(2)
  apply (auto simp: alike_def same_polls_def ret_def print_to_def seq_def polls_of_append
      split: prod.splits option.splits)
   apply (metis fst_conv option.distinct(1))
  done

lemma alike_iteration:
  assumes w: "\<And>t out. fst (output_write c t out) = None" and v: "same_vars v1 v2"
  shows "alike same_vars (iteration c interval_set True ld v1)
           (iteration c interval_set False ld v2)"
  unfolding iteration_def
  using v
  apply (simp add: same_vars_def)
  apply (rule alike_seq [OF alike_time_sleep])
  apply (rule alike_seq [OF alike_call_status])
  apply simp
  apply (rule alike_seq [OF alike_adjust])
  apply (auto split: prod.splits intro!: alike_skip_print [OF w] alike_ret simp: same_vars_def)
  done

lemma alike_poll:
  assumes w: "\<And>t out. fst (output_write c t out) = None"
  shows "same_vars v1 v2 \<Longrightarrow>
    alike (=) (poll c interval_set True ld fuel v1) (poll c interval_set False ld fuel v2)"
proof (induction fuel arbitrary: v1 v2)
  case 0
  then show ?case by (auto simp: same_vars_def intro: alike_ret alike_out_of_fuel)
next
  case (Suc fuel)
  from Suc.prems have st: "status v1 = status v2" by (simp add: same_vars_def)
  show ?case
  proof (cases "terminal (status v2)")
    case True
    with st show ?thesis by (simp add: alike_ret)
  next
    case False
    with st have p1: "poll c interval_set True ld (Suc fuel) v1 =
        seq (iteration c interval_set True ld v1) (poll c interval_set True ld fuel)"
      and p2: "poll c interval_set False ld (Suc fuel) v2 =
        seq (iteration c interval_set False ld v2) (poll c interval_set False ld fuel)"
      by simp_all
    show ?thesis
      unfolding p1 p2
      by (rule alike_seq [OF alike_iteration [OF w Suc.prems]]) (rule Suc.IH)
  qed
qed

lemma alike_text_checker:
  assumes w: "\<And>t out. fst (output_write c t out) = None"
  shows "alike (=) (text_checker c fuel ival interval_set True ld)
           (text_checker c fuel ival interval_set False ld)"
  unfolding text_checker_def
  apply (simp only: not_True_eq_False not_False_eq_True if_True if_False)
  apply (rule alike_seq [OF alike_call_status])
  apply (simp only:)
  apply (rule alike_seq [OF alike_print_to [OF w]])
  apply (rule alike_seq [OF alike_poll [OF w]])
   apply (simp add: same_vars_def)
  apply (rule alike_print_to [OF w])
  done

text \<open>
  C10, as the code runs it. When the write of the output file never raises, a session
  with \<open>quiet=True\<close> and one with \<open>quiet=False\<close>, on the same job from the same
  state, make the same status queries, queue position queries and sleeps, with the same
  answers, end the same way and leave the job in the same state, for every fuel.
\<close>

theorem quiet_polls_alike:
  assumes "\<And>t out. fst (output_write c t out) = None"
  shows "polls_of (events (snd (job_monitor c fuel ival True ld (start j out)))) =
         polls_of (events (snd (job_monitor c fuel ival False ld (start j out))))
       \<and> fst (job_monitor c fuel ival True ld (start j out)) =
         fst (job_monitor c fuel ival False ld (start j out))
       \<and> job (snd (job_monitor c fuel ival True ld (start j out))) =
         job (snd (job_monitor c fuel ival False ld (start j out)))"
proof -
  have "alike (=) (job_monitor c fuel ival True ld) (job_monitor c fuel ival False ld)"
    by (simp add: job_monitor_def alike_text_checker [OF assms] split: option.splits)
  moreover have "same_polls (start j out) (start j out)" by (simp add: same_polls_def)
  ultimately show ?thesis
    by (simp add: alike_def same_polls_def result.rel_eq)
qed

theorem quiet_polls_alike_witness:
  "(\<forall>t out. fst (output_write scripted t out) = None)
   \<and> polls_of (events (snd (job_monitor scripted 3 None True cr (start scenario [])))) =
     polls_of (events (snd (job_monitor scripted 3 None False cr (start scenario []))))
   \<and> polls_of (events (snd (job_monitor scripted 3 None False cr (start scenario [])))) =
       [Status_call (Inr QUEUED), Sleep 5, Status_call (Inr QUEUED),
        Queue_position_call (Inr (Some 1)), Queue_position_call (Inr (Some 1)),
        Queue_position_call (Inr (Some 1)), Sleep 2, Status_call (Inr RUNNING), Sleep 2,
        Status_call (Inr DONE)]"
proof -
  have h: "fst (output_write scripted t out) = None" for t out
    by (simp add: scripted_def buffer_write_def)
  have e: "polls_of (events (snd (job_monitor scripted 3 None False cr (start scenario [])))) =
       [Status_call (Inr QUEUED), Sleep 5, Status_call (Inr QUEUED),
        Queue_position_call (Inr (Some 1)), Queue_position_call (Inr (Some 1)),
        Queue_position_call (Inr (Some 1)), Sleep 2, Status_call (Inr RUNNING), Sleep 2,
        Status_call (Inr DONE)]"
    by code_simp
  from quiet_polls_alike [of scripted 3 None cr scenario "[]", OF h] h e show ?thesis by simp
qed

text \<open>
  C10 as stated fails on an output file whose write raises: the session that prints
  ends at its first line, the quiet one goes on polling.
\<close>

theorem closed_file_polls_differ:
  "polls_of (events (snd (job_monitor scripted_closed 3 None True cr (start scenario [])))) \<noteq>
   polls_of (events (snd (job_monitor scripted_closed 3 None False cr (start scenario []))))"
  by code_simp

subsection \<open>The padding of the messages\<close>

lemma triple_seq:
  fixes m :: "('a, 'j, 'o) act" and f :: "'a \<Rightarrow> ('b, 'j, 'o) act"
  assumes m: "triple P m Q"
    and f: "\<And>a. triple (Q (Return a)) (f a) Q'"
    and r: "\<And>e w. Q (Raise e) w \<Longrightarrow> Q' (Raise e) w"
    and t: "\<And>w. Q Timeout w \<Longrightarrow> Q' Timeout w"
  shows "triple P (seq m f) Q'"
  unfolding triple_def
proof (intro allI impI)
  fix w :: "('j, 'o) world"
  assume "P w"
  with m have q: "Q (fst (m w)) (snd (m w))" by (simp add: triple_def)
  obtain x w' where mw: "m w = (x, w')" by (cases "m w")
  show "Q' (fst (seq m f w)) (snd (seq m f w))"
  proof (cases x)
    case (Return a)
    with q mw have "Q (Return a) w'" by simp
    with f [of a] have "Q' (fst (f a w')) (snd (f a w'))" by (simp add: triple_def)
    with Return mw show ?thesis by (simp add: seq_def)
  next
    case (Raise e)
    with q r mw have "Q' (Raise e) w'" by simp
    with Raise mw show ?thesis by (simp add: seq_def)
  next
    case Timeout
    with q t mw have "Q' Timeout w'" by simp
    with Timeout mw show ?thesis by (simp add: seq_def)
  qed
qed



lemma triple_keeps: "keeps I m \<Longrightarrow> triple I m (\<lambda>_. I)"
  by (simp add: triple_def keeps_def)

lemma keeps_then:
  fixes m :: "('a, 'j, 'o) act" and f :: "'a \<Rightarrow> ('b, 'j, 'o) act"
  assumes "keeps I m" and "\<And>a. triple I (f a) Q"
    and "\<And>e w. I w \<Longrightarrow> Q (Raise e) w" and "\<And>w. I w \<Longrightarrow> Q Timeout w"
  shows "triple I (seq m f) Q"
  by (rule triple_seq [OF triple_keeps [OF assms(1)]]) (simp_all add: assms)

lemma messages_append: "messages (xs @ ys) = messages xs @ messages ys"
  by (simp add: messages_def prints_of_append)

lemma messages_single:
  "messages [Status_call r] = []"
  "messages [Queue_position_call q] = []"
  "messages [Sleep s] = []"
  "messages [Print t x] = (if t = newline then [] else [t])"
  by (simp_all add: messages_def)


lemma status_line_not_newline: "status_line ld msg \<noteq> newline"
proof
  assume "status_line ld msg = newline"
  then have "length (status_line ld msg) = length newline" by simp
  then show False by (simp add: status_line_def newline_def)
qed















subsection \<open>Termination\<close>

lemma adjust_progress:
  assumes qp: "\<And>qp j. queue_position c = Some qp \<Longrightarrow> rank (snd (qp j)) \<le> rank j"
    and a: "adjust c interval_set st msg ival w = (r, w')"
  shows "r \<noteq> Timeout \<and> rank (job w') \<le> (rank (job w) :: nat)"
proof (cases "name st = ''QUEUED'' \<and> hasattr_queue_position c")
  case False
  with a show ?thesis by (auto simp: adjust_def ret_def split: if_splits)
next
  case True
  then obtain q where q: "queue_position c = Some q"
    by (auto simp: hasattr_queue_position_def)
  have step: "rank (snd (q j)) \<le> rank j" for j by (rule qp [OF q])
  from True q a show ?thesis
    using step [of "job w"] step [of "snd (q (job w))"] step [of "snd (q (snd (q (job w))))"]
    by (auto simp: adjust_unfold split: prod.splits sum.splits if_splits option.splits)
qed

lemma iteration_progress:
  assumes st: "\<And>j st j'. job_status c j = (Inr st, j') \<Longrightarrow> terminal st \<or> rank j' < rank j"
    and qp: "\<And>qp j. queue_position c = Some qp \<Longrightarrow> rank (snd (qp j)) \<le> rank j"
    and i: "iteration c interval_set quiet ld v w = (r, w')"
  shows "r \<noteq> Timeout \<and>
    (\<forall>v'. r = Return v' \<longrightarrow> terminal (status v') \<or> rank (job w') < (rank (job w) :: nat))"
proof -
  have ap: "x \<noteq> Timeout \<and> rank (job u') \<le> rank (job u)"
    if "adjust c interval_set s msg ival u = (x, u')" for s msg ival u x u'
    using qp that by (rule adjust_progress [where rank = rank and c = c])
  from i show ?thesis
    apply (simp add: iteration_def seq_def time_sleep_def call_status_def print_to_def ret_def
        of_sum_def split: prod.splits sum.splits if_splits result.splits option.splits)
    apply (auto dest!: ap st)
    done
qed

lemma poll_progress:
  assumes st: "\<And>j st j'. job_status c j = (Inr st, j') \<Longrightarrow> terminal st \<or> rank j' < rank j"
    and qp: "\<And>qp j. queue_position c = Some qp \<Longrightarrow> rank (snd (qp j)) \<le> rank j"
  shows "terminal (status v) \<or> rank (job w) < (n :: nat) \<Longrightarrow>
    fst (poll c interval_set quiet ld n v w) \<noteq> Timeout"
proof (induction n arbitrary: v w)
  case 0
  then show ?case by (simp add: ret_def)
next
  case (Suc n)
  show ?case
  proof (cases "terminal (status v)")
    case True
    then show ?thesis by (simp add: ret_def)
  next
    case False
    with Suc.prems have less: "rank (job w) < Suc n" by simp
    obtain r w' where i: "iteration c interval_set quiet ld v w = (r, w')"
      by (cases "iteration c interval_set quiet ld v w")
    have "r \<noteq> Timeout \<and>
        (\<forall>v'. r = Return v' \<longrightarrow> terminal (status v') \<or> rank (job w') < rank (job w))"
      using st qp i by (rule iteration_progress [where rank = rank and c = c])
    then have nt: "r \<noteq> Timeout"
      and nx: "\<And>v'. r = Return v' \<Longrightarrow> terminal (status v') \<or> rank (job w') < rank (job w)"
      by auto
    show ?thesis
    proof (cases r)
      case (Return v')
      from nx [OF Return] less have "terminal (status v') \<or> rank (job w') < n" by auto
      then have "fst (poll c interval_set quiet ld n v' w') \<noteq> Timeout" by (rule Suc.IH)
      with False i Return show ?thesis by (simp add: seq_def)
    next
      case (Raise e)
      with False i show ?thesis by (simp add: seq_def)
    next
      case Timeout
      with nt show ?thesis by simp
    qed
  qed
qed

lemma poll_fuel:
  "fst (poll c interval_set quiet ld n v w) \<noteq> Timeout \<Longrightarrow>
   poll c interval_set quiet ld (n + k) v w = poll c interval_set quiet ld n v w"
proof (induction n arbitrary: v w)
  case 0
  then have "terminal (status v)" by (auto simp: out_of_fuel_def split: if_splits)
  then show ?case by (simp add: poll_terminal)
next
  case (Suc n)
  show ?case
  proof (cases "terminal (status v)")
    case True
    then show ?thesis by (simp add: poll_terminal)
  next
    case False
    obtain r w' where i: "iteration c interval_set quiet ld v w = (r, w')"
      by (cases "iteration c interval_set quiet ld v w")
    show ?thesis
    proof (cases r)
      case (Return v')
      with False i Suc.prems have "fst (poll c interval_set quiet ld n v' w') \<noteq> Timeout"
        by (simp add: seq_def)
      then have "poll c interval_set quiet ld (n + k) v' w' = poll c interval_set quiet ld n v' w'"
        by (rule Suc.IH)
      with False i Return show ?thesis by (simp add: seq_def)
    next
      case (Raise e)
      with False i show ?thesis by (simp add: seq_def)
    next
      case Timeout
      with False i show ?thesis by (simp add: seq_def)
    qed
  qed
qed

lemma seq_eqI:
  "m w = m' w \<Longrightarrow> (\<And>a w'. m' w = (Return a, w') \<Longrightarrow> f a w' = g a w') \<Longrightarrow>
   seq m f w = seq m' g w"
  by (auto simp: seq_def split: prod.splits result.splits)

lemma seq_Timeout:
  "fst (seq m f w) = Timeout \<longleftrightarrow>
     fst (m w) = Timeout \<or> (\<exists>a w'. m w = (Return a, w') \<and> fst (f a w') = Timeout)"
  by (auto simp: seq_def split: prod.splits result.splits)

lemma print_unless_not_Timeout:
  "fst ((if \<not> quiet then print_to c t else ret ()) w) \<noteq> Timeout"
  by (simp add: print_to_def ret_def split: prod.splits option.splits)

lemma print_unless_job:
  "(if \<not> quiet then print_to c t else ret ()) w = (r, w') \<Longrightarrow> job w' = job w"
  by (auto simp: print_to_def ret_def split: prod.splits if_splits)

lemma call_status_progress:
  assumes st: "\<And>j st j'. job_status c j = (Inr st, j') \<Longrightarrow> terminal st \<or> rank j' < rank j"
    and c: "call_status c w = (r, w')"
  shows "r \<noteq> Timeout \<and>
    (\<forall>s. r = Return s \<longrightarrow> terminal s \<or> rank (job w') < (rank (job w) :: nat))"
  using c
  by (auto simp: call_status_def of_sum_def split: prod.splits sum.splits dest!: st)

lemma text_checker_progress:
  assumes st: "\<And>j st j'. job_status c j = (Inr st, j') \<Longrightarrow> terminal st \<or> rank j' < rank j"
    and qp: "\<And>qp j. queue_position c = Some qp \<Longrightarrow> rank (snd (qp j)) \<le> rank j"
    and n: "rank (job w) \<le> (n :: nat)"
  shows "fst (text_checker c n ival interval_set quiet ld w) \<noteq> Timeout"
proof
  assume "fst (text_checker c n ival interval_set quiet ld w) = Timeout"
  then consider
      (first) "fst (call_status c w) = Timeout"
    | (line) s w1 where "call_status c w = (Return s, w1)"
        "fst ((if \<not> quiet then print_to c (status_line ld (val s)) else ret ()) w1) = Timeout"
    | (loop) s w1 u w2 where "call_status c w = (Return s, w1)"
        "(if \<not> quiet then print_to c (status_line ld (val s)) else ret ()) w1 = (Return u, w2)"
        "fst (poll c interval_set quiet ld n
           \<lparr>status = s, interval = ival, msg_len = length (val s), prev_msg = val s\<rparr> w2) = Timeout"
    | (final) w3 where "fst ((if \<not> quiet then print_to c newline else ret ()) w3) = Timeout"
    unfolding text_checker_def seq_Timeout by blast
  then show False
  proof cases
    case first
    obtain r w1 where c: "call_status c w = (r, w1)" by (cases "call_status c w")
    have "r \<noteq> Timeout \<and>
        (\<forall>s. r = Return s \<longrightarrow> terminal s \<or> rank (job w1) < rank (job w))"
      using st c by (rule call_status_progress [where rank = rank and c = c])
    with first c show False by simp
  next
    case line
    with print_unless_not_Timeout show False by blast
  next
    case loop
    let ?v = "\<lparr>status = s, interval = ival, msg_len = length (val s), prev_msg = val s\<rparr>"
    have "Return s \<noteq> Timeout \<and>
        (\<forall>s'. Return s = Return s' \<longrightarrow> terminal s' \<or> rank (job w1) < rank (job w))"
      using st loop(1) by (rule call_status_progress [where rank = rank and c = c])
    then have "terminal s \<or> rank (job w1) < rank (job w)" by simp
    moreover from print_unless_job [OF loop(2)] have "job w2 = job w1" .
    ultimately have "terminal (status ?v) \<or> rank (job w2) < n" using n by auto
    with st qp have "fst (poll c interval_set quiet ld n ?v w2) \<noteq> Timeout"
      by (rule poll_progress [where rank = rank and c = c])
    with loop(3) show False by simp
  next
    case final
    with print_unless_not_Timeout show False by blast
  qed
qed

lemma text_checker_fuel:
  assumes nt: "fst (text_checker c n ival interval_set quiet ld w) \<noteq> Timeout"
  shows "text_checker c (n + k) ival interval_set quiet ld w =
         text_checker c n ival interval_set quiet ld w"
  unfolding text_checker_def
proof (rule seq_eqI [OF refl], rule seq_eqI [OF refl], rule seq_eqI [OF _ refl])
  fix s w1 u w2
  assume c: "call_status c w = (Return s, w1)"
    and p: "(if \<not> quiet then print_to c (status_line ld (val s)) else ret ()) w1 = (Return u, w2)"
  let ?v = "\<lparr>status = s, interval = ival, msg_len = length (val s), prev_msg = val s\<rparr>"
  from nt c p have "fst (poll c interval_set quiet ld n ?v w2) \<noteq> Timeout"
    by (auto simp: text_checker_def seq_Timeout)
  then show "poll c interval_set quiet ld (n + k) ?v w2 = poll c interval_set quiet ld n ?v w2"
    by (rule poll_fuel)
qed

lemma unended_call_status: "keeps unended (call_status c)"
  by (simp add: keeps_def unended_def call_status_def messages_append messages_single
      prints_of_append split: prod.splits)

lemma unended_call_queue_position: "keeps unended (call_queue_position qp)"
  by (simp add: keeps_def unended_def call_queue_position_def messages_append messages_single
      prints_of_append split: prod.splits)

lemma unended_time_sleep: "keeps unended (time_sleep s)"
  by (simp add: keeps_def unended_def time_sleep_def messages_append messages_single
      prints_of_append)

lemma unended_print_to: "keeps unended (print_to c (status_line ld msg))"
  by (simp add: keeps_def unended_def print_to_def messages_append messages_single
      prints_of_append status_line_not_newline split: prod.splits)

lemma unended_adjust: "keeps unended (adjust c interval_set st msg ival)"
  unfolding adjust_def
  by (intro keeps_seq keeps_ret keeps_raise unended_call_queue_position
        if_split [where P = "keeps unended", THEN iffD2] conjI impI allI
        option.split [where P = "keeps unended", THEN iffD2])

lemma unended_iteration: "keeps unended (iteration c interval_set quiet ld v)"
  unfolding iteration_def
  by (auto intro!: keeps_seq keeps_ret unended_time_sleep unended_call_status unended_adjust
        unended_print_to split: prod.splits)

lemma unended_poll: "keeps unended (poll c interval_set quiet ld fuel v)"
  by (induction fuel arbitrary: v)
    (auto intro!: keeps_seq keeps_ret keeps_out_of_fuel unended_iteration)

lemma ended_print_newline:
  "triple unended (print_to c newline)
     (\<lambda>r w. r = Return () \<longrightarrow> prints_of (events w) = messages (events w) @ [newline])"
  by (simp add: triple_def unended_def print_to_def messages_append messages_single
      prints_of_append split: prod.splits)

lemma ended_text_checker:
  "triple unended (text_checker c fuel ival interval_set False ld)
     (\<lambda>r w. r = Return () \<longrightarrow> prints_of (events w) = messages (events w) @ [newline])"
  unfolding text_checker_def
  by (simp only: not_False_eq_True if_True)
    (intro keeps_then unended_call_status unended_print_to unended_poll ended_print_newline;
      simp)

text \<open>
  C5. Take a job whose statuses reach a terminal one after boundedly many queries: some
  measure \<open>rank\<close> of its state drops at every \<open>status()\<close> that returns a
  status which is not terminal, and does not grow at \<open>queue_position()\<close>. On such a
  job the loop needs no more iterations than the measure at the start: with that much
  fuel or more the session does not run out of it, and every larger fuel gives the same
  outcome. When \<open>quiet\<close> is off and the session returns, what it printed is its
  status lines followed by one newline, the last thing printed.
\<close>

theorem polling_terminates:
  assumes "\<And>j st j'. job_status c j = (Inr st, j') \<Longrightarrow> terminal st \<or> rank j' < rank j"
    and "\<And>qp j. queue_position c = Some qp \<Longrightarrow> rank (snd (qp j)) \<le> rank j"
    and "(rank j :: nat) \<le> fuel"
  shows "fst (job_monitor c fuel ival quiet ld (start j out)) \<noteq> Timeout
       \<and> job_monitor c fuel ival quiet ld (start j out) =
         job_monitor c (rank j) ival quiet ld (start j out)
       \<and> (\<not> quiet \<and> fst (job_monitor c fuel ival quiet ld (start j out)) = Return () \<longrightarrow>
            prints_of (events (snd (job_monitor c fuel ival quiet ld (start j out)))) =
            messages (events (snd (job_monitor c fuel ival quiet ld (start j out)))) @ [newline])"
proof -
  have r: "rank (job (start j out)) \<le> rank j" by (simp add: start_def)
  have enough: "fst (text_checker c (rank j) i s quiet ld (start j out)) \<noteq> Timeout" for i s
    using assms(1,2) r by (rule text_checker_progress [where rank = rank and c = c])
  from assms(3) obtain k where k: "fuel = rank j + k" by (auto simp: le_iff_add)
  have same: "text_checker c fuel i s quiet ld (start j out) =
      text_checker c (rank j) i s quiet ld (start j out)" for i s
    unfolding k by (rule text_checker_fuel [OF enough])
  have u: "unended (start j out)" by (simp add: unended_def start_def messages_def)
  have ended: "fst (text_checker c fuel i s False ld (start j out)) = Return () \<longrightarrow>
      prints_of (events (snd (text_checker c fuel i s False ld (start j out)))) =
      messages (events (snd (text_checker c fuel i s False ld (start j out)))) @ [newline]"
    for i s
    using ended_text_checker [of c fuel i s ld] u by (simp add: triple_def)
  show ?thesis
  proof (cases ival)
    case None
    with enough [of 5 False] same [of 5 False] ended [of 5 False] show ?thesis
      by (cases quiet) (simp_all add: job_monitor_def)
  next
    case (Some i)
    with enough [of i True] same [of i True] ended [of i True] show ?thesis
      by (cases quiet) (simp_all add: job_monitor_def)
  qed
qed

text \<open>
  The job of the scenario, measured by the length of the script left: the hypotheses
  hold of it, and four iterations are enough.
\<close>

theorem polling_terminates_witness:
  "length (fst scenario) \<le> 4
   \<and> fst (job_monitor scripted 4 None False cr (start scenario [])) = Return ()
   \<and> job_monitor scripted 4 None False cr (start scenario []) =
     job_monitor scripted (length (fst scenario)) None False cr (start scenario [])
   \<and> prints_of (events (snd (job_monitor scripted 4 None False cr (start scenario [])))) =
     messages (events (snd (job_monitor scripted 4 None False cr (start scenario [])))) @ [newline]"
proof -
  have h1: "terminal st \<or> length (fst j') < length (fst j)"
    if "job_status scripted j = (Inr st, j')" for j st j'
    using that by (auto simp: scripted_def script_status_def split: list.splits)
  have h2: "length (fst (snd (qp j))) \<le> length (fst j)"
    if "queue_position scripted = Some qp" for qp j
    using that by (auto simp: scripted_def script_queue_position_def)
  have h3: "length (fst scenario) \<le> 4" by (simp add: scenario_def)
  have r: "fst (job_monitor scripted 4 None False cr (start scenario [])) = Return ()"
    by code_simp
  have "fst (job_monitor scripted 4 None False cr (start scenario [])) \<noteq> Timeout
       \<and> job_monitor scripted 4 None False cr (start scenario []) =
         job_monitor scripted (length (fst scenario)) None False cr (start scenario [])
       \<and> (\<not> False \<and> fst (job_monitor scripted 4 None False cr (start scenario [])) = Return ()
            \<longrightarrow>
            prints_of (events (snd (job_monitor scripted 4 None False cr (start scenario [])))) =
            messages (events (snd (job_monitor scripted 4 None False cr (start scenario []))))
              @ [newline])"
    using h1 h2 h3
    by (rule polling_terminates [where rank = "\<lambda>j. length (fst j)" and c = scripted])
  with h3 r
  show ?thesis by auto
qed

subsection \<open>A queued status in the loop\<close>

text \<open>
  An action only adds calls to the list, and an iteration that starts sleeps first, for
  the interval it was handed.
\<close>

lemma grows_ret: "grows (ret a)"
  by (simp add: grows_def ret_def)

lemma grows_raise: "grows (raise e)"
  by (simp add: grows_def raise_def)

lemma grows_out_of_fuel: "grows out_of_fuel"
  by (simp add: grows_def out_of_fuel_def)

lemma grows_seq:
  fixes m :: "('a, 'j, 'o) act" and f :: "'a \<Rightarrow> ('b, 'j, 'o) act"
  assumes m: "grows m" and f: "\<And>a. grows (f a)"
  shows "grows (seq m f)"
  unfolding grows_def
proof
  fix w :: "('j, 'o) world"
  obtain x w' where mw: "m w = (x, w')" by (cases "m w")
  from m [unfolded grows_def, THEN spec, of w] mw
  obtain es where es: "events w' = events w @ es" by auto
  show "\<exists>es. events (snd (seq m f w)) = events w @ es"
  proof (cases x)
    case (Return a)
    from f [of a] obtain es' where "events (snd (f a w')) = events w' @ es'"
      by (auto simp: grows_def)
    with Return mw es show ?thesis by (simp add: seq_def)
  next
    case (Raise e)
    with mw es show ?thesis by (simp add: seq_def)
  next
    case Timeout
    with mw es show ?thesis by (simp add: seq_def)
  qed
qed

lemma grows_call_status: "grows (call_status c)"
  by (simp add: grows_def call_status_def split: prod.splits)

lemma grows_call_queue_position: "grows (call_queue_position qp)"
  by (simp add: grows_def call_queue_position_def split: prod.splits)

lemma grows_time_sleep: "grows (time_sleep s)"
  by (simp add: grows_def time_sleep_def)

lemma grows_print_to: "grows (print_to c t)"
  by (simp add: grows_def print_to_def split: prod.splits)

lemma grows_adjust: "grows (adjust c interval_set st msg ival)"
  unfolding adjust_def
  by (intro grows_seq grows_ret grows_raise grows_call_queue_position
        if_split [where P = grows, THEN iffD2] conjI impI allI
        option.split [where P = grows, THEN iffD2])

lemma grows_iteration: "grows (iteration c interval_set quiet ld v)"
  unfolding iteration_def
  by (auto intro!: grows_seq grows_ret grows_time_sleep grows_call_status grows_adjust
        grows_print_to split: prod.splits)

lemma grows_poll: "grows (poll c interval_set quiet ld fuel v)"
  by (induction fuel arbitrary: v)
    (auto intro!: grows_seq grows_ret grows_out_of_fuel grows_iteration)

lemma poll_sleeps_interval:
  assumes "\<not> terminal (status v)"
  shows "\<exists>es. events (snd (poll c interval_set quiet ld (Suc fuel) v w)) =
           events w @ Sleep (interval v) # es"
proof -
  let ?rest = "\<lambda>u :: unit.
     seq (call_status c) (\<lambda>st.
     seq (adjust c interval_set st (val st) (interval v)) (\<lambda>(msg, ival).
       case pad msg (msg_len v) of
         (msg', len') \<Rightarrow>
           if msg' \<noteq> prev_msg v \<and> \<not> quiet then
             seq (print_to c (status_line ld msg')) (\<lambda>_.
               ret \<lparr>status = st, interval = ival, msg_len = len', prev_msg = msg'\<rparr>)
           else
             ret \<lparr>status = st, interval = ival, msg_len = len', prev_msg = prev_msg v\<rparr>))"
  have p: "poll c interval_set quiet ld (Suc fuel) v =
      seq (time_sleep (interval v))
        (\<lambda>u. seq (?rest u) (poll c interval_set quiet ld fuel))"
    using assms
    by (auto simp: iteration_def seq_def fun_eq_iff split: prod.splits result.splits)
  have "grows (\<lambda>w. seq (?rest ()) (poll c interval_set quiet ld fuel) w)"
    by (auto intro!: grows_seq grows_ret grows_call_status grows_adjust grows_print_to
        grows_poll split: prod.splits)
  then obtain es where
    "events (snd (seq (?rest ()) (poll c interval_set quiet ld fuel)
        (w\<lparr>events := events w @ [Sleep (interval v)]\<rparr>))) =
     events (w\<lparr>events := events w @ [Sleep (interval v)]\<rparr>) @ es"
    unfolding grows_def by blast
  then show ?thesis
    unfolding p by (auto simp: seq_def time_sleep_def)
qed

text \<open>
  Lines 48 to 56 on a queued status, when the calls of \<open>queue_position()\<close> return
  \<open>p1\<close>, \<open>p2\<close> and \<open>p3\<close> in this order.
\<close>

lemma adjust_queued:
  assumes "name st = ''QUEUED''" and "queue_position c = Some qp"
    and "qp (job w) = (Inr p1, j1)" and "qp j1 = (Inr p2, j2)" and "qp j2 = (Inr p3, j3)"
  shows "events (snd (adjust c interval_set st msg ival w)) =
           events w @ [Queue_position_call (Inr p1), Queue_position_call (Inr p2)] @
             (if p2 \<noteq> None \<and> \<not> interval_set then [Queue_position_call (Inr p3)] else [])
         \<and> fst (adjust c interval_set st msg ival w) =
           (case next_interval interval_set ival p2 p3 of
              None \<Rightarrow> Raise TypeError
            | Some i \<Rightarrow> Return (msg @ '' ('' @ percent_s p1 @ '')'', i))
         \<and> outfile (snd (adjust c interval_set st msg ival w)) = outfile w"
  using assms
  by (auto simp: adjust_unfold next_interval_def
      split: prod.splits sum.splits if_splits option.splits)

text \<open>The whole iteration, and the loop up to the sleep of the next iteration.\<close>

lemma iteration_queued:
  assumes iv: "0 \<le> interval v"
    and st: "job_status c (job w) = (Inr st, j0)" and q: "name st = ''QUEUED''"
    and qp: "queue_position c = Some qp"
    and c1: "qp j0 = (Inr p1, j1)" and c2: "qp j1 = (Inr p2, j2)" and c3: "qp j2 = (Inr p3, j3)"
    and wr: "\<And>t. \<not> quiet \<Longrightarrow> fst (output_write c t (outfile w)) = None"
  shows "events (snd (iteration c interval_set quiet ld v w)) =
           events w @
             [Sleep (interval v), Status_call (Inr st),
              Queue_position_call (Inr p1), Queue_position_call (Inr p2)] @
             (if p2 \<noteq> None \<and> \<not> interval_set then [Queue_position_call (Inr p3)] else []) @
             (case next_interval interval_set (interval v) p2 p3 of
                None \<Rightarrow> []
              | Some i \<Rightarrow>
                  if fst (pad (val st @ '' ('' @ percent_s p1 @ '')'') (msg_len v)) \<noteq> prev_msg v
                     \<and> \<not> quiet
                  then [Print (status_line ld
                          (fst (pad (val st @ '' ('' @ percent_s p1 @ '')'') (msg_len v)))) None]
                  else [])
       \<and> (case next_interval interval_set (interval v) p2 p3 of
             None \<Rightarrow> fst (iteration c interval_set quiet ld v w) = Raise TypeError
           | Some i \<Rightarrow>
               (\<exists>v'. fst (iteration c interval_set quiet ld v w) = Return v'
                  \<and> status v' = st \<and> interval v' = i))"
proof -
  define w1 where "w1 = w\<lparr>events := events w @ [Sleep (interval v)]\<rparr>"
  define w2 where "w2 = w1\<lparr>job := j0, events := events w1 @ [Status_call (Inr st)]\<rparr>"
  let ?msg = "val st @ '' ('' @ percent_s p1 @ '')''"
  have s: "time_sleep (interval v) w = (Return (), w1)"
    using iv by (simp add: time_sleep_def w1_def)
  have cs: "call_status c w1 = (Return st, w2)"
    using st by (simp add: call_status_def of_sum_def w1_def w2_def)
  obtain r w3 where a: "adjust c interval_set st (val st) (interval v) w2 = (r, w3)"
    by (cases "adjust c interval_set st (val st) (interval v) w2")
  have j2: "qp (job w2) = (Inr p1, j1)" using c1 by (simp add: w2_def)
  from adjust_queued [OF q qp j2 c2 c3, of interval_set "val st" "interval v"] a
  have e3: "events w3 = events w2 @ [Queue_position_call (Inr p1), Queue_position_call (Inr p2)] @
             (if p2 \<noteq> None \<and> \<not> interval_set then [Queue_position_call (Inr p3)] else [])"
    and r: "r = (case next_interval interval_set (interval v) p2 p3 of
              None \<Rightarrow> Raise TypeError
            | Some i \<Rightarrow> Return (?msg, i))"
    and o3: "outfile w3 = outfile w2"
    by simp_all
  have e2: "events w2 = events w @ [Sleep (interval v), Status_call (Inr st)]"
    by (simp add: w2_def w1_def)
  have o2: "outfile w2 = outfile w" by (simp add: w2_def w1_def)
  show ?thesis
  proof (cases "next_interval interval_set (interval v) p2 p3")
    case None
    with r have "r = Raise TypeError" by simp
    with s cs a have "iteration c interval_set quiet ld v w = (Raise TypeError, w3)"
      by (simp add: iteration_def seq_def)
    with None e3 e2 show ?thesis by simp
  next
    case (Some i)
    with r have r': "r = Return (?msg, i)" by simp
    obtain msg' len' where p: "pad ?msg (msg_len v) = (msg', len')"
      by (cases "pad ?msg (msg_len v)")
    show ?thesis
    proof (cases "msg' \<noteq> prev_msg v \<and> \<not> quiet")
      case True
      then have "fst (output_write c (status_line ld msg') (outfile w3)) = None"
        using wr o3 o2 by simp
      then obtain out' where
        ow: "output_write c (status_line ld msg') (outfile w3) = (None, out')"
        by (cases "output_write c (status_line ld msg') (outfile w3)") simp
      from s cs a r' p True ow
      have "iteration c interval_set quiet ld v w =
          (Return \<lparr>status = st, interval = i, msg_len = len', prev_msg = msg'\<rparr>,
           w3\<lparr>outfile := out', events := events w3 @ [Print (status_line ld msg') None]\<rparr>)"
        by (simp add: iteration_def seq_def print_to_def ret_def)
      with Some e3 e2 p True show ?thesis by simp
    next
      case False
      from s cs a r' p False
      have "iteration c interval_set quiet ld v w =
          (Return \<lparr>status = st, interval = i, msg_len = len', prev_msg = prev_msg v\<rparr>, w3)"
        by (auto simp: iteration_def seq_def ret_def)
      with Some e3 e2 p False show ?thesis by auto
    qed
  qed
qed



lemma sleeps_of_append: "sleeps_of (xs @ ys) = sleeps_of xs @ sleeps_of ys"
  by (induction xs rule: sleeps_of.induct) simp_all

lemma queued_not_terminal: "name st = ''QUEUED'' \<Longrightarrow> \<not> terminal st"
  by (simp add: terminal_def)

lemma poll_queued:
  assumes nt: "\<not> terminal (status v)" and iv: "0 \<le> interval v"
    and st: "job_status c (job w) = (Inr st, j0)" and q: "name st = ''QUEUED''"
    and qp: "queue_position c = Some qp"
    and c1: "qp j0 = (Inr p1, j1)" and c2: "qp j1 = (Inr p2, j2)" and c3: "qp j2 = (Inr p3, j3)"
    and wr: "\<And>t. \<not> quiet \<Longrightarrow> fst (output_write c t (outfile w)) = None"
  shows "\<exists>es. events (snd (poll c interval_set quiet ld (Suc (Suc fuel)) v w)) =
           events w @
             [Sleep (interval v), Status_call (Inr st),
              Queue_position_call (Inr p1), Queue_position_call (Inr p2)] @
             (if p2 \<noteq> None \<and> \<not> interval_set then [Queue_position_call (Inr p3)] else []) @
             (case next_interval interval_set (interval v) p2 p3 of
                None \<Rightarrow> []
              | Some i \<Rightarrow>
                  (if fst (pad (val st @ '' ('' @ percent_s p1 @ '')'') (msg_len v)) \<noteq> prev_msg v
                      \<and> \<not> quiet
                   then [Print (status_line ld
                           (fst (pad (val st @ '' ('' @ percent_s p1 @ '')'') (msg_len v)))) None]
                   else []) @ Sleep i # es)"
proof -
  obtain r w' where i: "iteration c interval_set quiet ld v w = (r, w')"
    by (cases "iteration c interval_set quiet ld v w")
  note it = iteration_queued [OF iv st q qp c1 c2 c3 wr, of quiet interval_set ld, simplified i]
  from nt i have p: "poll c interval_set quiet ld (Suc (Suc fuel)) v w =
      (case r of Return v' \<Rightarrow> poll c interval_set quiet ld (Suc fuel) v' w'
       | Raise e \<Rightarrow> (Raise e, w') | Timeout \<Rightarrow> (Timeout, w'))"
    by (simp add: seq_def)
  show ?thesis
  proof (cases "next_interval interval_set (interval v) p2 p3")
    case None
    with it have "r = Raise TypeError" by simp
    with p it None show ?thesis by simp
  next
    case (Some n)
    with it obtain v' where r: "r = Return v'" and sv: "status v' = st" and iv': "interval v' = n"
      by auto
    from sv q have "\<not> terminal (status v')" by (simp add: queued_not_terminal)
    from poll_sleeps_interval [OF this, of c interval_set quiet ld fuel w'] iv'
    obtain es where "events (snd (poll c interval_set quiet ld (Suc fuel) v' w')) =
        events w' @ Sleep n # es"
      by auto
    with p r it Some show ?thesis by simp
  qed
qed

text \<open>
  C4. No interval was given (\<open>_interval_set\<close> is False). The loop runs an iteration
  whose sleep returns and whose status is QUEUED, on a job that has
  \<open>queue_position\<close>; the calls of this iteration all report \<open>p\<close>, and the write of
  the line, if there is one, does not raise. Then the calls of the loop go on, after the
  status query, with calls that are no sleeps and then with a sleep of \<open>p\<close> seconds
  when \<open>p\<close> is at least 2, and of 2 seconds when \<open>p\<close> is less than 2 or null:
  that is the next sleep.
\<close>

theorem queued_position_sets_next_sleep:
  assumes "\<not> terminal (status v)" and "0 \<le> interval v"
    and "job_status c (job w) = (Inr st, j0)" and "name st = ''QUEUED''"
    and "queue_position c = Some qp"
    and "qp j0 = (Inr p, j1)" and "qp j1 = (Inr p, j2)" and "qp j2 = (Inr p, j3)"
    and "\<And>t. \<not> quiet \<Longrightarrow> fst (output_write c t (outfile w)) = None"
  shows "\<exists>es1 es2.
           events (snd (poll c False quiet ld (Suc (Suc fuel)) v w)) =
             events w @ [Sleep (interval v), Status_call (Inr st)] @ es1 @
               Sleep (case p of None \<Rightarrow> 2 | Some n \<Rightarrow> if 2 \<le> n then n else 2) # es2
           \<and> sleeps_of es1 = []"
proof -
  have "\<exists>es. events (snd (poll c False quiet ld (Suc (Suc fuel)) v w)) =
           events w @
             [Sleep (interval v), Status_call (Inr st),
              Queue_position_call (Inr p), Queue_position_call (Inr p)] @
             (if p \<noteq> None \<and> \<not> False then [Queue_position_call (Inr p)] else []) @
             (case next_interval False (interval v) p p of
                None \<Rightarrow> []
              | Some i \<Rightarrow>
                  (if fst (pad (val st @ '' ('' @ percent_s p @ '')'') (msg_len v)) \<noteq> prev_msg v
                      \<and> \<not> quiet
                   then [Print (status_line ld
                           (fst (pad (val st @ '' ('' @ percent_s p @ '')'') (msg_len v)))) None]
                   else []) @ Sleep i # es)"
    using assms by (rule poll_queued)
  then obtain es where e: "events (snd (poll c False quiet ld (Suc (Suc fuel)) v w)) =
           events w @
             [Sleep (interval v), Status_call (Inr st),
              Queue_position_call (Inr p), Queue_position_call (Inr p)] @
             (if p \<noteq> None then [Queue_position_call (Inr p)] else []) @
             (case next_interval False (interval v) p p of
                None \<Rightarrow> []
              | Some i \<Rightarrow>
                  (if fst (pad (val st @ '' ('' @ percent_s p @ '')'') (msg_len v)) \<noteq> prev_msg v
                      \<and> \<not> quiet
                   then [Print (status_line ld
                           (fst (pad (val st @ '' ('' @ percent_s p @ '')'') (msg_len v)))) None]
                   else []) @ Sleep i # es)"
    by auto
  have n: "next_interval False (interval v) p p =
      Some (case p of None \<Rightarrow> 2 | Some n \<Rightarrow> if 2 \<le> n then n else 2)"
    by (auto simp: next_interval_def split: option.splits)
  let ?es1 = "[Queue_position_call (Inr p), Queue_position_call (Inr p)] @
             (if p \<noteq> None then [Queue_position_call (Inr p)] else []) @
             (if fst (pad (val st @ '' ('' @ percent_s p @ '')'') (msg_len v)) \<noteq> prev_msg v
                      \<and> \<not> quiet
                   then [Print (status_line ld
                           (fst (pad (val st @ '' ('' @ percent_s p @ '')'') (msg_len v)))) None]
                   else [])"
  have "sleeps_of ?es1 = []" by simp
  moreover from e n have "events (snd (poll c False quiet ld (Suc (Suc fuel)) v w)) =
      events w @ [Sleep (interval v), Status_call (Inr st)] @ ?es1 @
        Sleep (case p of None \<Rightarrow> 2 | Some n \<Rightarrow> if 2 \<le> n then n else 2) # es"
    by simp
  ultimately show ?thesis by blast
qed



text \<open>A job queued at position 7: the loop sleeps 5 and then 7 seconds.\<close>

theorem queued_position_sets_next_sleep_witness:
  "\<not> terminal (status first_queued) \<and> 0 \<le> interval first_queued
   \<and> job_status scripted (job (start (queued_at (Some 7)) [])) =
       (Inr QUEUED, ([(DONE, None)], Some 7))
   \<and> name QUEUED = ''QUEUED'' \<and> queue_position scripted = Some script_queue_position
   \<and> script_queue_position ([(DONE, None)], Some 7) =
       (Inr (Some 7), ([(DONE, None)], Some 7))
   \<and> (\<exists>es1 es2.
         events (snd (poll scripted False False cr (Suc (Suc 0)) first_queued
                        (start (queued_at (Some 7)) []))) =
           [Sleep 5, Status_call (Inr QUEUED)] @ es1 @ Sleep 7 # es2
         \<and> sleeps_of es1 = [])
   \<and> sleeps_of (events (snd (poll scripted False False cr (Suc (Suc 0)) first_queued
                                (start (queued_at (Some 7)) [])))) = [5, 7]"
proof -
  have h1: "\<not> terminal (status first_queued)"
    by (simp add: first_queued_def QUEUED_def terminal_def)
  have h2: "0 \<le> interval first_queued" by (simp add: first_queued_def)
  have h3: "job_status scripted (job (start (queued_at (Some 7)) [])) =
       (Inr QUEUED, ([(DONE, None)], Some 7))"
    by (simp add: scripted_def script_status_def start_def queued_at_def)
  have h4: "name QUEUED = ''QUEUED''" by (simp add: QUEUED_def)
  have h5: "queue_position scripted = Some script_queue_position" by (simp add: scripted_def)
  have h6: "script_queue_position ([(DONE, None)], Some 7) =
       (Inr (Some 7), ([(DONE, None)], Some 7))"
    by (simp add: script_queue_position_def)
  have h7: "fst (output_write scripted t (outfile (start (queued_at (Some 7)) []))) = None"
    if "\<not> False" for t
    by (simp add: scripted_def buffer_write_def)
  from queued_position_sets_next_sleep [OF h1 h2 h3 h4 h5 h6 h6 h6 h7,
      where quiet = False and ld = cr and fuel = 0]
  have inst: "\<exists>es1 es2.
         events (snd (poll scripted False False cr (Suc (Suc 0)) first_queued
                        (start (queued_at (Some 7)) []))) =
           [Sleep 5, Status_call (Inr QUEUED)] @ es1 @ Sleep 7 # es2
         \<and> sleeps_of es1 = []"
    by (simp del: poll.simps add: start_def first_queued_def)
  have run: "sleeps_of (events (snd (poll scripted False False cr (Suc (Suc 0)) first_queued
                                (start (queued_at (Some 7)) [])))) = [5, 7]"
    by code_simp
  from h1 h2 h3 h4 h5 h6 inst run show ?thesis by blast
qed




end
